theory Spec2Isabelle
  imports Main "HOL-Library.Sublist" "HOL-Library.Multiset"
begin

section \<open>JavaScript strings and values\<close>

text \<open>
  A JavaScript string is modelled as a HOL \<^typ>\<open>string\<close>; every \<^typ>\<open>char\<close> stands for one
  code unit in the range 0 to 255 (ASCII and Latin-1), so \<^const>\<open>length\<close> is the
  \<^verbatim>\<open>.length\<close> of the source.  A value that is either a string or \<^verbatim>\<open>null\<close> /
  \<^verbatim>\<open>undefined\<close> is a \<^typ>\<open>string option\<close>.  The source tests such values for
  truthiness: \<^verbatim>\<open>null\<close>, \<^verbatim>\<open>undefined\<close> and the empty string are falsy.
\<close>

definition truthy :: "string option \<Rightarrow> bool" where
  "truthy v = (case v of None \<Rightarrow> False | Some s \<Rightarrow> s \<noteq> [])"

text \<open>\<^verbatim>\<open>a || b\<close> for a possibly missing string \<open>a\<close> and a string \<open>b\<close>.\<close>

definition or_else :: "string option \<Rightarrow> string \<Rightarrow> string" where
  "or_else v d = (case v of None \<Rightarrow> d | Some s \<Rightarrow> if s \<noteq> [] then s else d)"

text \<open>
  \<^verbatim>\<open>String.prototype.toLowerCase\<close> on the modelled range: the ASCII capitals and the
  Latin-1 capitals (0xC0 to 0xDE without the multiplication sign 0xD7) move up by 32.
\<close>

definition lower_char :: "char \<Rightarrow> char" where
  "lower_char c =
     (let n = (of_char c :: nat)
      in if (65 \<le> n \<and> n \<le> 90) \<or> (192 \<le> n \<and> n \<le> 222 \<and> n \<noteq> 215)
         then char_of (n + 32) else c)"

definition toLowerCase :: "string \<Rightarrow> string" where
  "toLowerCase s = map lower_char s"

section \<open>cornerstoneInit.js: one-time initialisation\<close>

text \<open>
  The module keeps two variables, \<^verbatim>\<open>initialized\<close> (a boolean) and \<^verbatim>\<open>initError\<close>
  (\<^verbatim>\<open>null\<close> or the text of the failure).
\<close>

record init_state =
  initialized :: bool
  initError :: "string option"

definition init_state0 :: init_state where
  "init_state0 = \<lparr>initialized = False, initError = None\<rparr>"

text \<open>
  The value caught by \<^verbatim>\<open>catch (e)\<close> is any JavaScript value.  The handler reads two
  things from it: \<^verbatim>\<open>e?.message\<close> (here a string, or \<open>None\<close> when the value is
  \<^verbatim>\<open>null\<close>, has no such property, or the property is not a string) and
  \<^verbatim>\<open>String(e)\<close>.
\<close>

record thrown =
  message :: "string option"
  to_string :: string

text \<open>
  What the body of the \<^verbatim>\<open>try\<close> block does when it runs is decided by the two libraries
  it calls: it completes, or one of the calls throws.
\<close>

datatype setup_outcome = SetupCompletes | SetupThrows thrown

record init_result =
  ok :: bool
  error :: "string option"

text \<open>\<^verbatim>\<open>e?.message || String(e)\<close>\<close>

definition error_text :: "thrown \<Rightarrow> string" where
  "error_text e = or_else (message e) (to_string e)"

text \<open>
  \<^verbatim>\<open>initCornerstone()\<close>, with the module state passed in and returned.  The first argument
  says what the setup does if this call reaches it.
\<close>

definition initCornerstone :: "setup_outcome \<Rightarrow> init_state \<Rightarrow> init_result \<times> init_state" where
  "initCornerstone setup st =
     (if truthy (initError st) then (\<lparr>ok = False, error = initError st\<rparr>, st)
      else if initialized st then (\<lparr>ok = True, error = None\<rparr>, st)
      else (case setup of
              SetupCompletes \<Rightarrow> (\<lparr>ok = True, error = None\<rparr>, st\<lparr>initialized := True\<rparr>)
            | SetupThrows e \<Rightarrow>
                (\<lparr>ok = False, error = Some (error_text e)\<rparr>,
                 st\<lparr>initError := Some (error_text e)\<rparr>)))"

text \<open>A sequence of calls; the list gives, for each call, what the setup would do.\<close>

fun init_calls :: "setup_outcome list \<Rightarrow> init_state \<Rightarrow> init_result list" where
  "init_calls [] st = []"
| "init_calls (x # xs) st =
     (case initCornerstone x st of (r, st') \<Rightarrow> r # init_calls xs st')"

text \<open>Whether a call reaches the setup code, that is, passes both early returns.\<close>

definition runs_setup :: "init_state \<Rightarrow> bool" where
  "runs_setup st = (\<not> truthy (initError st) \<and> \<not> initialized st)"

section \<open>ReportViewer: confidence tiers\<close>

definition DISC_LEVELS :: "string list" where
  "DISC_LEVELS = [''L1-L2'', ''L2-L3'', ''L3-L4'', ''L4-L5'', ''L5-S1'']"

text \<open>
  \<^verbatim>\<open>structured.confidence.level_confidence\<close> is an object from level names to tier
  names; it is an association list here, read with \<^const>\<open>map_of\<close>.
  \<^verbatim>\<open>levelConfidence[l] || 'medium'\<close>:
\<close>

definition level_tier :: "(string \<times> string) list \<Rightarrow> string \<Rightarrow> string" where
  "level_tier levelConfidence l = or_else (map_of levelConfidence l) ''medium''"

definition hasLowConfidence :: "(string \<times> string) list \<Rightarrow> bool" where
  "hasLowConfidence levelConfidence =
     (list_ex (\<lambda>l. level_tier levelConfidence l = ''low'') DISC_LEVELS \<or>
      list_ex (\<lambda>l. level_tier levelConfidence l = ''medium'') DISC_LEVELS)"

text \<open>The badge rendered for one level: its label and its tooltip.\<close>

record badge =
  badge_level :: string
  badge_label :: string
  badge_title :: string

definition level_badge :: "(string \<times> string) list \<Rightarrow> string \<Rightarrow> badge" where
  "level_badge levelConfidence level =
     (let conf = toLowerCase (level_tier levelConfidence level);
          isLow = (conf = ''low'');
          isMedium = (conf = ''medium'')
      in \<lparr>badge_level = level,
          badge_label = (if isLow then ''Low'' else if isMedium then ''Medium'' else ''High''),
          badge_title = (if isLow \<or> isMedium then ''Verify carefully'' else ''High confidence'')\<rparr>)"

text \<open>
  The warning banner \<^verbatim>\<open>Please verify: ...\<close> is rendered when
  \<^verbatim>\<open>hasLowConfidence && report\<close>.
\<close>

definition shows_verify_warning :: "(string \<times> string) list \<Rightarrow> string \<Rightarrow> bool" where
  "shows_verify_warning levelConfidence report = (hasLowConfidence levelConfidence \<and> report \<noteq> [])"

section \<open>DICOMViewer.jsx: the slice session\<close>

text \<open>
  The component keeps its state in React hooks.  The model is the state of one mounted
  \<^verbatim>\<open>DICOMViewer\<close> whose engine initialisation succeeded, passed through every event
  explicitly.  React runs an effect again whenever one of its dependencies has changed, and
  runs the cleanup of the previous run first; an event and the effects it triggers are one
  atomic step here, as they are on the single-threaded event loop.

  Every run of the load effect that reaches \<^verbatim>\<open>loadImage\<close> (lines 57 to 84) leaves a
  promise behind.  A \<open>load\<close> records the index the run was started for, the image id it
  asked for, the closure variable \<^verbatim>\<open>cancelled\<close> of that run, and whether the promise
  has settled.
\<close>

record load =
  tag :: int
  imageId :: string
  cancelled :: bool
  settled :: bool

text \<open>
  \<open>imageIds\<close> is the prop (an entry is \<open>Some url\<close> for a string and \<open>None\<close> for anything
  else); \<open>currentIndex\<close>, \<open>loading\<close>, \<open>errorMsg\<close> (the state variable \<^verbatim>\<open>error\<close>) and
  \<open>enabled\<close> are the \<^verbatim>\<open>useState\<close> cells; \<open>surface\<close> is the image id last drawn on
  the element by \<^verbatim>\<open>displayImage\<close>; \<open>loads\<close> are the promises issued so far and
  \<open>cleanup\<close> is the load whose cleanup function React holds for the load effect.
\<close>

record viewer =
  imageIds :: "string option list"
  currentIndex :: int
  loading :: bool
  errorMsg :: "string option"
  enabled :: bool
  surface :: "string option"
  loads :: "load list"
  cleanup :: "nat option"

definition totalSlices :: "viewer \<Rightarrow> int" where
  "totalSlices s = int (length (imageIds s))"

text \<open>
  \<^verbatim>\<open>imageIds[currentIndex]\<close>: reading outside the array gives \<^verbatim>\<open>undefined\<close>.
\<close>

definition image_at :: "string option list \<Rightarrow> int \<Rightarrow> string option" where
  "image_at ids i = (if 0 \<le> i \<and> i < int (length ids) then ids ! nat i else None)"

text \<open>The initial values of the \<^verbatim>\<open>useState\<close> cells (lines 34 to 38).\<close>

definition mount :: "string option list \<Rightarrow> viewer" where
  "mount ids = \<lparr>imageIds = ids, currentIndex = 0, loading = False, errorMsg = None,
                 enabled = False, surface = None, loads = [], cleanup = None\<rparr>"

text \<open>
  The updater functions of lines 106 and 107, with \<^verbatim>\<open>totalSlices\<close> as first argument.
\<close>

definition goPrev :: "int \<Rightarrow> int \<Rightarrow> int" where
  "goPrev n i = (if i \<le> 0 then n - 1 else i - 1)"

definition goNext :: "int \<Rightarrow> int \<Rightarrow> int" where
  "goNext n i = (if i \<ge> n - 1 then 0 else i + 1)"

text \<open>
  The load effect.  Its cleanup (line 83) sets \<^verbatim>\<open>cancelled\<close> of the run it belongs to.
  Its body returns early when there is no slice, the element is not enabled, or the entry
  at the current index is not a string; otherwise it sets \<^verbatim>\<open>loading\<close>, clears the
  error and issues a load.
\<close>

definition effect_cleanup :: "viewer \<Rightarrow> viewer" where
  "effect_cleanup s =
     (case cleanup s of
        None \<Rightarrow> s
      | Some k \<Rightarrow> s\<lparr>loads := (loads s)[k := (loads s ! k)\<lparr>cancelled := True\<rparr>],
                    cleanup := None\<rparr>)"

definition effect_body :: "viewer \<Rightarrow> viewer" where
  "effect_body s =
     (if totalSlices s = 0 \<or> \<not> enabled s then s
      else (case image_at (imageIds s) (currentIndex s) of
              None \<Rightarrow> s
            | Some url \<Rightarrow>
                s\<lparr>loading := True, errorMsg := None,
                  loads := loads s @ [\<lparr>tag = currentIndex s, imageId = ''wadouri:'' @ url,
                                        cancelled = False, settled = False\<rparr>],
                  cleanup := Some (length (loads s))\<rparr>))"

definition run_load_effect :: "viewer \<Rightarrow> viewer" where
  "run_load_effect s = effect_body (effect_cleanup s)"

text \<open>
  \<^verbatim>\<open>setCurrentIndex(f)\<close>: React keeps the state when the new value equals the old one;
  otherwise \<^verbatim>\<open>currentIndex\<close>, a dependency of the load effect, has changed.
\<close>

definition setCurrentIndex :: "(int \<Rightarrow> int) \<Rightarrow> viewer \<Rightarrow> viewer" where
  "setCurrentIndex f s =
     (if f (currentIndex s) = currentIndex s then s
      else run_load_effect (s\<lparr>currentIndex := f (currentIndex s)\<rparr>))"

text \<open>
  The two buttons carry \<^verbatim>\<open>disabled={totalSlices <= 1}\<close> (lines 210 and 220), and the
  key handler is registered only when \<^verbatim>\<open>totalSlices > 1\<close> (line 110); it ignores events
  whose target lies in an input, a textarea or a content-editable element.
\<close>

definition previous_slice :: "viewer \<Rightarrow> viewer" where
  "previous_slice s = (if totalSlices s \<le> 1 then s else setCurrentIndex (goPrev (totalSlices s)) s)"

definition next_slice :: "viewer \<Rightarrow> viewer" where
  "next_slice s = (if totalSlices s \<le> 1 then s else setCurrentIndex (goNext (totalSlices s)) s)"

definition handleKey :: "string \<Rightarrow> bool \<Rightarrow> viewer \<Rightarrow> viewer" where
  "handleKey key in_editable s =
     (if totalSlices s \<le> 1 then s
      else if in_editable then s
      else if key = ''ArrowLeft'' \<or> key = ''j'' \<or> key = ''J''
        then setCurrentIndex (goPrev (totalSlices s)) s
      else if key = ''ArrowRight'' \<or> key = ''k'' \<or> key = ''K''
        then setCurrentIndex (goNext (totalSlices s)) s
      else s)"

text \<open>
  \<^verbatim>\<open>enableElement\<close> (lines 47 to 55), called by the effect of lines 96 to 104 when there
  are slices, and the cleanup of that effect, which disables the element again.  Both
  change \<^verbatim>\<open>enabled\<close>, a dependency of the load effect.
\<close>

datatype enable_outcome = EnableOk | EnableThrows "string option"

definition enableElement :: "enable_outcome \<Rightarrow> viewer \<Rightarrow> viewer" where
  "enableElement out s =
     (if totalSlices s = 0 \<or> enabled s then s
      else (case out of
              EnableOk \<Rightarrow> run_load_effect (s\<lparr>enabled := True\<rparr>)
            | EnableThrows m \<Rightarrow> s\<lparr>errorMsg := Some (or_else m ''Failed to enable viewer'')\<rparr>))"

definition disableElement :: "viewer \<Rightarrow> viewer" where
  "disableElement s = (if enabled s then run_load_effect (s\<lparr>enabled := False\<rparr>) else s)"

text \<open>The parent renders the component with another \<^verbatim>\<open>imageIds\<close> array.\<close>

definition newImageIds :: "string option list \<Rightarrow> viewer \<Rightarrow> viewer" where
  "newImageIds ids s = run_load_effect (s\<lparr>imageIds := ids\<rparr>)"

text \<open>
  A promise settles once: \<^verbatim>\<open>loadImage\<close> resolves, and then drawing succeeds or
  \<^verbatim>\<open>displayImage\<close> or \<^verbatim>\<open>resize\<close> throws, or it rejects.  The handlers of lines 68 to
  82 do nothing when \<^verbatim>\<open>cancelled\<close> is set.
\<close>

datatype display_result = Displayed | DisplayThrows "string option" | ResizeThrows "string option"

datatype load_outcome = Loaded display_result | LoadRejected "string option"

definition settle :: "nat \<Rightarrow> viewer \<Rightarrow> viewer" where
  "settle k s = s\<lparr>loads := (loads s)[k := (loads s ! k)\<lparr>settled := True\<rparr>]\<rparr>"

definition resolve :: "nat \<Rightarrow> load_outcome \<Rightarrow> viewer \<Rightarrow> viewer" where
  "resolve k out s =
     (if k \<ge> length (loads s) \<or> settled (loads s ! k) then s
      else if cancelled (loads s ! k) then settle k s
      else (case out of
              Loaded Displayed \<Rightarrow>
                (settle k s)\<lparr>surface := Some (imageId (loads s ! k)), loading := False\<rparr>
            | Loaded (DisplayThrows m) \<Rightarrow>
                (settle k s)\<lparr>errorMsg := Some (or_else m ''Failed to display image''),
                             loading := False\<rparr>
            | Loaded (ResizeThrows m) \<Rightarrow>
                (settle k s)\<lparr>surface := Some (imageId (loads s ! k)),
                             errorMsg := Some (or_else m ''Failed to display image''),
                             loading := False\<rparr>
            | LoadRejected m \<Rightarrow>
                (settle k s)\<lparr>errorMsg := Some (or_else m ''Failed to load image''),
                             loading := False\<rparr>))"

text \<open>The events of a session, and a session as the run of an event list from a mount.\<close>

datatype event =
    ClickPrev
  | ClickNext
  | KeyDown string bool
  | Enable enable_outcome
  | Disable
  | NewImageIds "string option list"
  | Resolve nat load_outcome

fun step :: "event \<Rightarrow> viewer \<Rightarrow> viewer" where
  "step ClickPrev s = previous_slice s"
| "step ClickNext s = next_slice s"
| "step (KeyDown key in_editable) s = handleKey key in_editable s"
| "step (Enable out) s = enableElement out s"
| "step Disable s = disableElement s"
| "step (NewImageIds ids) s = newImageIds ids s"
| "step (Resolve k out) s = resolve k out s"

definition run :: "event list \<Rightarrow> string option list \<Rightarrow> viewer" where
  "run es ids = fold step es (mount ids)"

fun replaces_sequence :: "event \<Rightarrow> bool" where
  "replaces_sequence (NewImageIds ids) = True"
| "replaces_sequence e = False"

text \<open>What the user can see of the state: everything but the bookkeeping of promises.\<close>

definition observable :: "viewer \<Rightarrow> string option list \<times> int \<times> bool \<times> string option \<times> bool \<times> string option" where
  "observable s = (imageIds s, currentIndex s, loading s, errorMsg s, enabled s, surface s)"

definition valid_index :: "viewer \<Rightarrow> bool" where
  "valid_index s = (0 \<le> currentIndex s \<and> currentIndex s < totalSlices s)"

text \<open>
  Invariants used below: at most the load of the last effect run is not cancelled, and it
  was issued for the current index and the current entry of the sequence; and, as long as
  the sequence is \<open>ids\<close>, the index stays in range.
\<close>

definition one_live :: "viewer \<Rightarrow> bool" where
  "one_live s = (\<forall>k < length (loads s). \<not> cancelled (loads s ! k) \<longrightarrow> cleanup s = Some k)"

definition live_current :: "viewer \<Rightarrow> bool" where
  "live_current s =
     (\<forall>k < length (loads s). \<not> cancelled (loads s ! k) \<longrightarrow>
        cleanup s = Some k \<and> tag (loads s ! k) = currentIndex s \<and>
        (\<exists>url. image_at (imageIds s) (currentIndex s) = Some url \<and>
               imageId (loads s ! k) = ''wadouri:'' @ url))"

definition index_inv :: "string option list \<Rightarrow> viewer \<Rightarrow> bool" where
  "index_inv ids s =
     (imageIds s = ids \<and> 0 \<le> currentIndex s \<and> currentIndex s < max 1 (int (length ids)))"

section \<open>reportFormat.js: the report as a document tree\<close>

subsection \<open>Strings\<close>

text \<open>
  \<^verbatim>\<open>String.prototype.trim\<close> removes white space and line terminators at both ends; on
  the modelled range these are tab, line feed, vertical tab, form feed, carriage return,
  space and the no-break space 0xA0.
\<close>

definition is_space :: "char \<Rightarrow> bool" where
  "is_space c = (c \<in> set [CHR 0x09, CHR 0x0A, CHR 0x0B, CHR 0x0C, CHR 0x0D, CHR 0x20, CHR 0xA0])"

definition trim :: "string \<Rightarrow> string" where
  "trim s = rev (dropWhile is_space (rev (dropWhile is_space s)))"

text \<open>
  \<^verbatim>\<open>String.prototype.toUpperCase\<close> on the modelled range: the small letters move down by
  32 (ASCII, and Latin-1 0xE0 to 0xFE without the division sign 0xF7), and the sharp s
  0xDF becomes two letters.  The capitals of 0xB5 and 0xFF lie outside the range; they are
  left as they are, which no test against an ASCII word can tell.
\<close>

definition upper_char :: "char \<Rightarrow> string" where
  "upper_char c =
     (let n = (of_char c :: nat)
      in if n = 223 then ''SS''
         else if (97 \<le> n \<and> n \<le> 122) \<or> (224 \<le> n \<and> n \<le> 254 \<and> n \<noteq> 247)
         then [char_of (n - 32)] else [c])"

definition toUpperCase :: "string \<Rightarrow> string" where
  "toUpperCase s = concat (map upper_char s)"

text \<open>\<^verbatim>\<open>s.includes(sub)\<close>\<close>

definition str_includes :: "string \<Rightarrow> string \<Rightarrow> bool" where
  "str_includes s sub = list_ex (prefix sub) (suffixes s)"

subsection \<open>The three regular expressions\<close>

text \<open>
  \<^verbatim>\<open>ABNORMAL_KEYWORDS\<close>, \<^verbatim>\<open>NORMAL_KEYWORDS\<close> and \<^verbatim>\<open>levelPattern\<close> all have the shape
  \<^verbatim>\<open>/\b(a|b|...)\b/i\<close> and are used with \<^verbatim>\<open>test\<close> only.  Every alternative begins and
  ends with a word character (\<^verbatim>\<open>[A-Za-z0-9_]\<close>), so the first \<^verbatim>\<open>\b\<close> holds exactly when
  the character before the match is not a word character (or there is none), and the
  second exactly when the character after it is not.  Without the \<^verbatim>\<open>u\<close> flag the
  \<^verbatim>\<open>i\<close> flag lets an ASCII letter of the pattern match its two ASCII cases only, so the
  text is matched in lower case against the alternatives written in lower case.

  \<open>word_at kw s\<close>: the alternative \<open>kw\<close> matches at the start of \<open>s\<close> and a word boundary
  follows.  \<open>regex_scan m prev_word s\<close>: some position of \<open>s\<close> that follows a non-word
  character (\<open>prev_word\<close> tells whether the character before \<open>s\<close> is a word character)
  satisfies \<open>m\<close>.
\<close>

definition is_word_char :: "char \<Rightarrow> bool" where
  "is_word_char c =
     (let n = (of_char c :: nat)
      in (48 \<le> n \<and> n \<le> 57) \<or> (65 \<le> n \<and> n \<le> 90) \<or> n = 95 \<or> (97 \<le> n \<and> n \<le> 122))"

definition starts_with_word_char :: "string \<Rightarrow> bool" where
  "starts_with_word_char s = (case s of [] \<Rightarrow> False | c # cs \<Rightarrow> is_word_char c)"

fun word_at :: "string \<Rightarrow> string \<Rightarrow> bool" where
  "word_at [] s = (\<not> starts_with_word_char s)"
| "word_at (k # ks) [] = False"
| "word_at (k # ks) (c # cs) = (if c = k then word_at ks cs else False)"

fun regex_scan :: "(string \<Rightarrow> bool) \<Rightarrow> bool \<Rightarrow> string \<Rightarrow> bool" where
  "regex_scan m prev_word [] = False"
| "regex_scan m prev_word (c # cs) =
     (if prev_word then regex_scan m (is_word_char c) cs
      else if m (c # cs) then True
      else regex_scan m (is_word_char c) cs)"

definition test_words :: "string list \<Rightarrow> string \<Rightarrow> bool" where
  "test_words kws s = regex_scan (\<lambda>u. list_ex (\<lambda>kw. word_at kw u) kws) False (toLowerCase s)"

definition ABNORMAL_KEYWORDS :: "string list" where
  "ABNORMAL_KEYWORDS =
     [''bulge'', ''bulging'', ''herniation'', ''herniated'', ''stenosis'', ''narrowing'',
      ''compression'', ''compressed'', ''effacement'', ''impingement'', ''extrusion'',
      ''sequestration'', ''degenerative'', ''tear'', ''tearing'', ''abnormal'', ''pathology'',
      ''lesion'']"

definition NORMAL_KEYWORDS :: "string list" where
  "NORMAL_KEYWORDS =
     [''normal'', ''unremarkable'', ''no evidence of'', ''no acute'', ''no significant'',
      ''intact'', ''preserved'', ''mild'']"

text \<open>\<^verbatim>\<open>/\b(L[1-5]-L[2-5]|L[1-5]-S1)\b/i\<close>\<close>

definition digit_in :: "char \<Rightarrow> nat \<Rightarrow> nat \<Rightarrow> bool" where
  "digit_in c lo hi = (48 + lo \<le> (of_char c :: nat) \<and> (of_char c :: nat) \<le> 48 + hi)"

definition level_at :: "string \<Rightarrow> bool" where
  "level_at s =
     (case s of
        a # b # c # d # e # rest \<Rightarrow>
          if a = CHR ''l'' \<and> c = CHR ''-'' then
            digit_in b 1 5 \<and>
            ((d = CHR ''l'' \<and> digit_in e 2 5) \<or> (d = CHR ''s'' \<and> e = CHR ''1'')) \<and>
            \<not> starts_with_word_char rest
          else False
      | _ \<Rightarrow> False)"

definition levelPattern :: "string \<Rightarrow> bool" where
  "levelPattern s = regex_scan level_at False (toLowerCase s)"

subsection \<open>Document trees\<close>

text \<open>
  \<^verbatim>\<open>enhanceReportHtml\<close> parses its argument with the browser's \<^verbatim>\<open>DOMParser\<close>, works on
  the tree under \<^verbatim>\<open>body\<close> and returns \<^verbatim>\<open>body.innerHTML\<close>.  Parser and serialiser are
  the browser's; the model starts from the parsed tree and ends with the tree that is
  serialised.  A node is a text node or an element with its tag name (in lower case), the
  token list of its \<^verbatim>\<open>class\<close> attribute (the only attribute the sanitiser is told to
  keep and the only one the function touches) and its child nodes.  A document is the list
  of the child nodes of \<^verbatim>\<open>body\<close>.
\<close>

datatype node = Text string | Element string "string list" "node list"

fun textContent :: "node \<Rightarrow> string" where
  "textContent (Text s) = s"
| "textContent (Element t cs kids) = concat (map textContent kids)"

text \<open>\<^verbatim>\<open>classList.add(c)\<close>: the token is appended unless it is there already.\<close>

definition classList_add :: "string \<Rightarrow> string list \<Rightarrow> string list" where
  "classList_add c cs = (if c \<in> set cs then cs else cs @ [c])"

subsection \<open>Section wrapping (lines 75 to 96)\<close>

text \<open>
  \<open>wrapperClass\<close> is the class chosen for an \<^verbatim>\<open>h2\<close> from its title (lines 78 to 81),
  \<open>None\<close> when the heading is not wrapped.  For a heading that is wrapped, the loop of
  lines 87 to 92 walks \<^verbatim>\<open>nextElementSibling\<close> up to the next \<^verbatim>\<open>H2\<close>: \<open>toMove\<close> are the
  elements among the following siblings before the next \<^verbatim>\<open>h2\<close>; the text nodes among
  them, which \<^verbatim>\<open>nextElementSibling\<close> skips, stay behind in the parent (\<open>left_behind\<close>),
  after the wrapper; \<open>from_next_h2\<close> is the rest of the siblings.
\<close>

fun is_element :: "node \<Rightarrow> bool" where
  "is_element (Text s) = False"
| "is_element (Element t cs kids) = True"

fun is_h2 :: "node \<Rightarrow> bool" where
  "is_h2 (Text s) = False"
| "is_h2 (Element t cs kids) = (t = ''h2'')"

definition wrapperClass :: "node \<Rightarrow> string option" where
  "wrapperClass h2 =
     (if \<not> is_h2 h2 then None
      else (let title = toUpperCase (trim (textContent h2))
            in if str_includes title ''IMPRESSION'' \<or> str_includes title ''CONCLUSION''
                 then Some ''report-section-impression''
               else if str_includes title ''FINDINGS'' \<or> str_includes title ''FINDING''
                 then Some ''report-section-findings''
               else None))"

definition toMove :: "node list \<Rightarrow> node list" where
  "toMove ns = filter is_element (takeWhile (\<lambda>n. \<not> is_h2 n) ns)"

definition left_behind :: "node list \<Rightarrow> node list" where
  "left_behind ns = filter (\<lambda>n. \<not> is_element n) (takeWhile (\<lambda>n. \<not> is_h2 n) ns)"

definition from_next_h2 :: "node list \<Rightarrow> node list" where
  "from_next_h2 ns = dropWhile (\<lambda>n. \<not> is_h2 n) ns"

text \<open>
  \<^verbatim>\<open>querySelectorAll('h2')\<close> lists the headings in document order, and each one is wrapped
  in place.  Wrapping a heading moves whole subtrees only and reads nothing but the tag
  names of the siblings and the text of the heading itself, which is read before anything
  inside the heading is moved.  So the loop is a recursion over the tree: \<open>wrap_h2s\<close>
  treats one list of siblings from left to right, \<open>wrap_node\<close> the children of a node,
  and \<open>wrap_all\<close> is \<open>map wrap_node\<close>.
\<close>

lemma size_list_filter_le: "size_list f (filter P xs) \<le> size_list f xs"
  by (induction xs) auto

lemma size_list_takeWhile_le: "size_list f (takeWhile P xs) \<le> size_list f xs"
  by (induction xs) auto

lemma size_list_dropWhile_le: "size_list f (dropWhile P xs) \<le> size_list f xs"
  by (induction xs) auto

lemma size_list_toMove: "size_list f (toMove ns) \<le> size_list f ns"
  unfolding toMove_def
  by (rule order_trans [OF size_list_filter_le size_list_takeWhile_le])

lemma size_list_from_next_h2: "size_list f (from_next_h2 ns) \<le> size_list f ns"
  unfolding from_next_h2_def by (rule size_list_dropWhile_le)

function wrap_node :: "node \<Rightarrow> node"
  and wrap_all :: "node list \<Rightarrow> node list"
  and wrap_h2s :: "node list \<Rightarrow> node list" where
  "wrap_node (Text s) = Text s"
| "wrap_node (Element t cs kids) = Element t cs (wrap_h2s kids)"
| "wrap_all [] = []"
| "wrap_all (n # ns) = wrap_node n # wrap_all ns"
| "wrap_h2s [] = []"
| "wrap_h2s (n # ns) =
     (case wrapperClass n of
        None \<Rightarrow> wrap_node n # wrap_h2s ns
      | Some c \<Rightarrow>
          Element ''div'' [c] (wrap_node n # wrap_all (toMove ns))
            # left_behind ns @ wrap_h2s (from_next_h2 ns))"
  by pat_completeness auto
termination
  by (relation "measure (\<lambda>x. case x of Inl n \<Rightarrow> size n
                                  | Inr (Inl ns) \<Rightarrow> size_list size ns
                                  | Inr (Inr ns) \<Rightarrow> size_list size ns)")
     (auto simp: less_Suc_eq_le intro: le_SucI trans_le_add2 size_list_toMove size_list_from_next_h2)

subsection \<open>Level tinting (lines 98 to 114)\<close>

definition level_class :: "string \<Rightarrow> string option" where
  "level_class text =
     (let hasAbnormal = test_words ABNORMAL_KEYWORDS text;
          hasNormal = test_words NORMAL_KEYWORDS text
      in if hasAbnormal \<and> \<not> hasNormal then Some ''report-level-abnormal''
         else if hasNormal \<or> \<not> hasAbnormal then Some ''report-level-normal''
         else None)"

definition tint :: "string \<Rightarrow> string list \<Rightarrow> string \<Rightarrow> string list" where
  "tint t cs text =
     (if (t = ''p'' \<or> t = ''div'') \<and> levelPattern text \<and> length text < 800
      then (case level_class text of Some c \<Rightarrow> classList_add c cs | None \<Rightarrow> cs)
      else cs)"

fun walk :: "node \<Rightarrow> node" where
  "walk (Text s) = Text s"
| "walk (Element t cs kids) =
     Element t (tint t cs (trim (textContent (Element t cs kids)))) (map walk kids)"

text \<open>
  The early return for a blank string agrees with the two passes: a blank string parses to
  an empty \<^verbatim>\<open>body\<close>, which both passes leave empty.  \<^verbatim>\<open>walk(body)\<close> itself adds nothing
  to \<^verbatim>\<open>body\<close>, whose tag is neither \<^verbatim>\<open>p\<close> nor \<^verbatim>\<open>div\<close>.
\<close>

definition enhanceReportHtml :: "node list \<Rightarrow> node list" where
  "enhanceReportHtml body = map walk (wrap_h2s body)"

subsection \<open>Notions used in the properties\<close>


fun has_section :: "node \<Rightarrow> bool" where
  "has_section (Text s) = False"
| "has_section (Element t cs kids) =
     (wrapperClass (Element t cs kids) \<noteq> None \<or> list_ex has_section kids)"






section \<open>Properties of the initialiser\<close>

lemma initCornerstone_success_cached:
  "initialized st \<Longrightarrow> \<not> truthy (initError st) \<Longrightarrow>
   initCornerstone setup st = (\<lparr>ok = True, error = None\<rparr>, st)"
  by (simp add: initCornerstone_def)

lemma initCornerstone_failure_cached:
  "truthy (initError st) \<Longrightarrow>
   initCornerstone setup st = (\<lparr>ok = False, error = initError st\<rparr>, st)"
  by (simp add: initCornerstone_def)

lemma init_calls_after_success:
  "initialized st \<Longrightarrow> \<not> truthy (initError st) \<Longrightarrow>
   init_calls xs st = replicate (length xs) \<lparr>ok = True, error = None\<rparr>"
  by (induction xs) (simp_all add: initCornerstone_success_cached)

lemma init_calls_after_failure:
  "truthy (initError st) \<Longrightarrow>
   init_calls xs st = replicate (length xs) \<lparr>ok = False, error = initError st\<rparr>"
  by (induction xs) (simp_all add: initCornerstone_failure_cached)

text \<open>
  Claim C6 (memoisation of the initialiser).  A first call whose setup completes is cached:
  every later call returns the same success without reaching the setup (lemma
  \<open>init_calls_after_success\<close>); a first call whose setup throws a value with a non-empty
  error text is cached likewise (lemma \<open>init_calls_after_failure\<close>).  The failure is
  remembered by the truthiness of \<^verbatim>\<open>initError\<close>, though: when the thrown value has no
  message and its string form is empty (\<^verbatim>\<open>throw ''\<close>), \<^verbatim>\<open>initError\<close> becomes the
  empty string, the next call passes both early returns, runs the setup again, and can
  succeed.  The sequence of results is then a failure followed by a success.
\<close>

theorem init_failure_not_memoized:
  "init_calls [SetupThrows \<lparr>message = None, to_string = ''''\<rparr>, SetupCompletes] init_state0
     = [\<lparr>ok = False, error = Some ''''\<rparr>, \<lparr>ok = True, error = None\<rparr>]
   \<and> runs_setup (snd (initCornerstone (SetupThrows \<lparr>message = None, to_string = ''''\<rparr>) init_state0))"
  by (simp add: initCornerstone_def init_state0_def truthy_def error_text_def or_else_def
      runs_setup_def)

section \<open>Properties of the confidence tiers\<close>

lemma level_tier_absent: "map_of levelConfidence l = None \<Longrightarrow> level_tier levelConfidence l = ''medium''"
  by (simp add: level_tier_def or_else_def)

lemma toLowerCase_medium: "toLowerCase ''medium'' = ''medium''"
  by code_simp

text \<open>
  Claim C7, as the code has it: a level that is absent from the level-confidence mapping
  falls back to the tier \<^verbatim>\<open>medium\<close>, not \<^verbatim>\<open>high\<close>.  Its badge reads "Medium" with the
  tooltip "Verify carefully", and the absent level makes \<^verbatim>\<open>hasLowConfidence\<close> true, so
  it does contribute to the verification warning.
\<close>

theorem absent_level_defaults_to_medium:
  assumes "l \<in> set DISC_LEVELS" and "map_of levelConfidence l = None"
  shows "level_tier levelConfidence l = ''medium''
       \<and> badge_label (level_badge levelConfidence l) = ''Medium''
       \<and> badge_title (level_badge levelConfidence l) = ''Verify carefully''
       \<and> hasLowConfidence levelConfidence"
proof -
  have t: "level_tier levelConfidence l = ''medium''"
    using assms(2) by (rule level_tier_absent)
  have b: "level_badge levelConfidence l
             = \<lparr>badge_level = l, badge_label = ''Medium'', badge_title = ''Verify carefully''\<rparr>"
    by (simp add: level_badge_def t toLowerCase_medium)
  have "list_ex (\<lambda>l. level_tier levelConfidence l = ''medium'') DISC_LEVELS"
    unfolding list_ex_iff using assms(1) t by blast
  then have h: "hasLowConfidence levelConfidence"
    by (simp add: hasLowConfidence_def)
  show ?thesis using t b h by simp
qed

theorem absent_level_defaults_to_medium_witness:
  "''L1-L2'' \<in> set DISC_LEVELS \<and> map_of [(''L2-L3'', ''high'')] ''L1-L2'' = None
   \<and> level_tier [(''L2-L3'', ''high'')] ''L1-L2'' = ''medium''
   \<and> badge_label (level_badge [(''L2-L3'', ''high'')] ''L1-L2'') = ''Medium''
   \<and> hasLowConfidence [(''L2-L3'', ''high'')]"
proof -
  have h1: "''L1-L2'' \<in> set DISC_LEVELS" by (simp add: DISC_LEVELS_def)
  have h2: "map_of [(''L2-L3'', ''high'')] ''L1-L2'' = None" by simp
  show ?thesis using absent_level_defaults_to_medium [OF h1 h2] h1 h2 by simp
qed

text \<open>
  The claim as the specification words it (an absent level is presented as high confidence
  and stays out of the warning) fails already for a mapping that rates one level only.
\<close>

theorem absent_level_not_high:
  "badge_label (level_badge [(''L2-L3'', ''high'')] ''L1-L2'') \<noteq> ''High''
   \<and> shows_verify_warning [(''L2-L3'', ''high'')] ''report''"
  by code_simp

section \<open>Properties of the slice session\<close>

lemma effect_cleanup_frame [simp]:
  "imageIds (effect_cleanup s) = imageIds s" "currentIndex (effect_cleanup s) = currentIndex s"
  "enabled (effect_cleanup s) = enabled s" "loading (effect_cleanup s) = loading s"
  "errorMsg (effect_cleanup s) = errorMsg s" "surface (effect_cleanup s) = surface s"
  "length (loads (effect_cleanup s)) = length (loads s)"
  by (simp_all add: effect_cleanup_def split: option.splits)

lemma effect_body_frame [simp]:
  "imageIds (effect_body s) = imageIds s" "currentIndex (effect_body s) = currentIndex s"
  "enabled (effect_body s) = enabled s" "surface (effect_body s) = surface s"
  by (simp_all add: effect_body_def split: option.splits)

lemma run_load_effect_frame [simp]:
  "imageIds (run_load_effect s) = imageIds s" "currentIndex (run_load_effect s) = currentIndex s"
  "enabled (run_load_effect s) = enabled s" "surface (run_load_effect s) = surface s"
  by (simp_all add: run_load_effect_def)

lemma totalSlices_run_load_effect [simp]: "totalSlices (run_load_effect s) = totalSlices s"
  by (simp add: totalSlices_def)

lemma next_slice_index:
  "currentIndex (next_slice s) =
     (if totalSlices s \<le> 1 then currentIndex s else goNext (totalSlices s) (currentIndex s))"
  by (simp add: next_slice_def setCurrentIndex_def)

lemma previous_slice_index:
  "currentIndex (previous_slice s) =
     (if totalSlices s \<le> 1 then currentIndex s else goPrev (totalSlices s) (currentIndex s))"
  by (simp add: previous_slice_def setCurrentIndex_def)

lemma next_slice_imageIds [simp]: "imageIds (next_slice s) = imageIds s"
  by (simp add: next_slice_def setCurrentIndex_def)

lemma previous_slice_imageIds [simp]: "imageIds (previous_slice s) = imageIds s"
  by (simp add: previous_slice_def setCurrentIndex_def)

lemma next_slice_funpow_imageIds [simp]: "imageIds ((next_slice ^^ k) s) = imageIds s"
  by (induction k) simp_all




subsection \<open>One live load\<close>



lemma live_current_one_live: "live_current s \<Longrightarrow> one_live s"
  by (auto simp: live_current_def one_live_def)

lemma effect_cleanup_all_cancelled:
  assumes "one_live s" and "k < length (loads s)"
  shows "cancelled (loads (effect_cleanup s) ! k)"
proof (cases "cleanup s")
  case None
  then show ?thesis using assms by (auto simp: one_live_def effect_cleanup_def)
next
  case (Some j)
  show ?thesis
  proof (cases "j = k")
    case True
    then show ?thesis using Some assms by (simp add: effect_cleanup_def)
  next
    case False
    then have "cancelled (loads s ! k)" using assms Some by (auto simp: one_live_def)
    then show ?thesis using Some False by (simp add: effect_cleanup_def)
  qed
qed

lemma effect_cleanup_cleanup [simp]: "cleanup (effect_cleanup s) = None"
  by (simp add: effect_cleanup_def split: option.splits)

lemma effect_body_live_current:
  assumes "\<forall>k < length (loads s). cancelled (loads s ! k)"
  shows "live_current (effect_body s)"
  using assms
  by (auto simp: live_current_def effect_body_def nth_append split: option.splits)

lemma run_load_effect_live_current: "one_live s \<Longrightarrow> live_current (run_load_effect s)"
  unfolding run_load_effect_def
  by (rule effect_body_live_current) (simp add: effect_cleanup_all_cancelled)

lemma one_live_update [simp]:
  "one_live (s\<lparr>currentIndex := i\<rparr>) = one_live s"
  "one_live (s\<lparr>enabled := b\<rparr>) = one_live s"
  "one_live (s\<lparr>imageIds := ids\<rparr>) = one_live s"
  by (simp_all add: one_live_def)

lemma setCurrentIndex_live_current: "live_current s \<Longrightarrow> live_current (setCurrentIndex f s)"
  by (simp add: setCurrentIndex_def run_load_effect_live_current live_current_one_live)

lemma settle_frame [simp]:
  "imageIds (settle k s) = imageIds s" "currentIndex (settle k s) = currentIndex s"
  "loading (settle k s) = loading s" "errorMsg (settle k s) = errorMsg s"
  "enabled (settle k s) = enabled s" "surface (settle k s) = surface s"
  "cleanup (settle k s) = cleanup s" "length (loads (settle k s)) = length (loads s)"
  by (simp_all add: settle_def)

lemma settle_nth [simp]:
  "j < length (loads s) \<Longrightarrow> cancelled (loads (settle k s) ! j) = cancelled (loads s ! j)"
  "j < length (loads s) \<Longrightarrow> tag (loads (settle k s) ! j) = tag (loads s ! j)"
  "j < length (loads s) \<Longrightarrow> imageId (loads (settle k s) ! j) = imageId (loads s ! j)"
  by (cases "k < length (loads s)"; simp add: settle_def nth_list_update)+

lemma settle_live_current: "live_current s \<Longrightarrow> live_current (settle k s)"
  by (simp add: live_current_def)

lemma live_current_observable_update [simp]:
  "live_current (s\<lparr>loading := b\<rparr>) = live_current s"
  "live_current (s\<lparr>errorMsg := m\<rparr>) = live_current s"
  "live_current (s\<lparr>surface := v\<rparr>) = live_current s"
  by (simp_all add: live_current_def)

lemma resolve_live_current: "live_current s \<Longrightarrow> live_current (resolve k out s)"
  by (simp add: resolve_def settle_live_current split: load_outcome.splits display_result.splits)

lemma step_live_current: "live_current s \<Longrightarrow> live_current (step e s)"
proof (cases e)
  case (Enable out)
  then show "live_current s \<Longrightarrow> live_current (step e s)"
    by (cases out)
       (simp_all add: enableElement_def run_load_effect_live_current live_current_one_live)
qed (simp_all add: previous_slice_def next_slice_def handleKey_def disableElement_def
       newImageIds_def setCurrentIndex_live_current resolve_live_current
       run_load_effect_live_current live_current_one_live)

lemma mount_live_current: "live_current (mount ids)"
  by (simp add: live_current_def mount_def)

lemma run_snoc: "run (es @ [e]) ids = step e (run es ids)"
  by (simp add: run_def)

lemma run_live_current: "live_current (run es ids)"
proof (induction es rule: rev_induct)
  case Nil
  show ?case by (simp add: run_def mount_live_current)
next
  case (snoc e es)
  then show ?case by (simp add: run_snoc step_live_current)
qed

lemma stale_is_cancelled:
  assumes "live_current s" and "k < length (loads s)" and "tag (loads s ! k) \<noteq> currentIndex s"
  shows "cancelled (loads s ! k)"
  using assms by (auto simp: live_current_def)

lemma resolve_cancelled:
  "k < length (loads s) \<Longrightarrow> cancelled (loads s ! k) \<Longrightarrow>
   resolve k out s = (if settled (loads s ! k) then s else settle k s)"
  by (simp add: resolve_def)

lemma observable_settle [simp]: "observable (settle k s) = observable s"
  by (simp add: observable_def)

lemma resolve_cancelled_observable:
  "k < length (loads s) \<Longrightarrow> cancelled (loads s ! k) \<Longrightarrow> observable (resolve k out s) = observable s"
  by (simp add: resolve_cancelled)

lemma resolve_frame [simp]:
  "imageIds (resolve k out s) = imageIds s" "currentIndex (resolve k out s) = currentIndex s"
  "enabled (resolve k out s) = enabled s" "cleanup (resolve k out s) = cleanup s"
  "length (loads (resolve k out s)) = length (loads s)"
  by (simp_all add: resolve_def split: load_outcome.splits display_result.splits)

lemma resolve_nth [simp]:
  "j < length (loads s) \<Longrightarrow> cancelled (loads (resolve k out s) ! j) = cancelled (loads s ! j)"
  "j < length (loads s) \<Longrightarrow> tag (loads (resolve k out s) ! j) = tag (loads s ! j)"
  "j < length (loads s) \<Longrightarrow> imageId (loads (resolve k out s) ! j) = imageId (loads s ! j)"
  by (simp_all add: resolve_def split: load_outcome.splits display_result.splits)

lemma settle_other [simp]:
  "j < length (loads s) \<Longrightarrow> j \<noteq> k \<Longrightarrow> loads (settle k s) ! j = loads s ! j"
  by (simp add: settle_def)

lemma observable_resolve_settle:
  assumes "kb < length (loads s)" and "ka \<noteq> kb"
  shows "observable (resolve kb out (settle ka s)) = observable (resolve kb out s)"
  using assms
  by (simp add: resolve_def observable_def split: load_outcome.splits display_result.splits)

lemma resolve_surface_cases:
  "surface (resolve k out s) = surface s \<or> surface (resolve k out s) = Some (imageId (loads s ! k))"
  by (simp add: resolve_def split: load_outcome.splits display_result.splits)

text \<open>
  Claim C1 (stale-load rejection).  Take any state \<open>s\<close> a session can reach and two of its
  loads, \<open>ka\<close> issued for an index that is no longer the current one and \<open>kb\<close>.  Whatever
  the outcome of \<open>ka\<close>, its completion changes nothing the user can see (no drawing, no
  error, no change of the loading flag), and the state after both loads have completed is
  the state after \<open>kb\<close> alone, in either order of completion.  If \<open>kb\<close> is the live load,
  it was issued for the current index, and after its successful completion the surface
  shows the image of the current index and the loading flag is off, again in either order.
\<close>

theorem stale_load_rejected:
  assumes "s = run es ids"
      and "ka < length (loads s)" and "kb < length (loads s)" and "ka \<noteq> kb"
      and "tag (loads s ! ka) \<noteq> currentIndex s"
  shows "observable (resolve ka oa s) = observable s
       \<and> observable (resolve kb ob (resolve ka oa s)) = observable (resolve kb ob s)
       \<and> observable (resolve ka oa (resolve kb ob s)) = observable (resolve kb ob s)
       \<and> (\<not> cancelled (loads s ! kb) \<and> \<not> settled (loads s ! kb) \<longrightarrow>
            tag (loads s ! kb) = currentIndex s
          \<and> image_at (imageIds s) (currentIndex s) \<noteq> None
          \<and> surface (resolve ka oa (resolve kb (Loaded Displayed) s))
              = Some (''wadouri:'' @ the (image_at (imageIds s) (currentIndex s)))
          \<and> surface (resolve kb (Loaded Displayed) (resolve ka oa s))
              = Some (''wadouri:'' @ the (image_at (imageIds s) (currentIndex s)))
          \<and> \<not> loading (resolve ka oa (resolve kb (Loaded Displayed) s))
          \<and> \<not> loading (resolve kb (Loaded Displayed) (resolve ka oa s)))"
proof -
  have inv: "live_current s" using assms(1) by (simp add: run_live_current)
  have ca: "cancelled (loads s ! ka)"
    using inv assms(2,5) by (rule stale_is_cancelled)
  have 1: "observable (resolve ka oa s) = observable s"
    using assms(2) ca by (rule resolve_cancelled_observable)
  have 2: "observable (resolve kb ob (resolve ka oa s)) = observable (resolve kb ob s)" for ob
    using assms(2,3,4) ca by (simp add: resolve_cancelled observable_resolve_settle)
  have 3: "observable (resolve ka oa (resolve kb ob s)) = observable (resolve kb ob s)" for ob
    using assms(2) ca by (intro resolve_cancelled_observable) simp_all
  have 4: "tag (loads s ! kb) = currentIndex s
          \<and> image_at (imageIds s) (currentIndex s) \<noteq> None
          \<and> surface (resolve kb (Loaded Displayed) s)
              = Some (''wadouri:'' @ the (image_at (imageIds s) (currentIndex s)))
          \<and> \<not> loading (resolve kb (Loaded Displayed) s)"
    if "\<not> cancelled (loads s ! kb)" and "\<not> settled (loads s ! kb)"
    using that inv assms(3) by (auto simp: live_current_def resolve_def)
  have surf: "surface t = snd (snd (snd (snd (snd (observable t)))))" for t
    by (simp add: observable_def)
  have load: "loading t = fst (snd (snd (observable t)))" for t
    by (simp add: observable_def)
  show ?thesis
    using 1 2 3 4 by (simp add: surf load)
qed

theorem stale_load_rejected_witness:
  "surface (resolve 1 (Loaded Displayed) (resolve 2 (Loaded Displayed)
      (run [Enable EnableOk, ClickNext, ClickNext] [Some ''a'', Some ''b'', Some ''c''])))
     = Some ''wadouri:c''
   \<and> surface (resolve 2 (Loaded Displayed) (resolve 1 (Loaded Displayed)
      (run [Enable EnableOk, ClickNext, ClickNext] [Some ''a'', Some ''b'', Some ''c''])))
     = Some ''wadouri:c''
   \<and> observable (resolve 1 (Loaded Displayed)
      (run [Enable EnableOk, ClickNext, ClickNext] [Some ''a'', Some ''b'', Some ''c'']))
     = observable (run [Enable EnableOk, ClickNext, ClickNext] [Some ''a'', Some ''b'', Some ''c''])"
proof -
  define s where "s = run [Enable EnableOk, ClickNext, ClickNext] [Some ''a'', Some ''b'', Some ''c'']"
  have s: "s = \<lparr>imageIds = [Some ''a'', Some ''b'', Some ''c''], currentIndex = 2, loading = True,
      errorMsg = None, enabled = True, surface = None,
      loads = [\<lparr>tag = 0, imageId = ''wadouri:a'', cancelled = True, settled = False\<rparr>,
               \<lparr>tag = 1, imageId = ''wadouri:b'', cancelled = True, settled = False\<rparr>,
               \<lparr>tag = 2, imageId = ''wadouri:c'', cancelled = False, settled = False\<rparr>],
      cleanup = Some 2\<rparr>"
    unfolding s_def
    by (simp add: run_def mount_def enableElement_def next_slice_def setCurrentIndex_def
        run_load_effect_def effect_cleanup_def effect_body_def totalSlices_def goNext_def
        image_at_def)
  have h1: "(1::nat) < length (loads s)" and h2: "(2::nat) < length (loads s)"
    and h3: "(1::nat) \<noteq> 2" and h4: "tag (loads s ! 1) \<noteq> currentIndex s"
    and h5: "\<not> cancelled (loads s ! 2) \<and> \<not> settled (loads s ! 2)"
    and h6: "image_at (imageIds s) (currentIndex s) = Some ''c''"
    by (simp_all add: s image_at_def)
  from stale_load_rejected [OF s_def h1 h2 h3 h4, of "Loaded Displayed" "Loaded Displayed"] h5 h6
  show ?thesis unfolding s_def [symmetric] by simp
qed

subsection \<open>The index while the sequence is kept\<close>


lemma setCurrentIndex_index:
  "currentIndex (setCurrentIndex f s) = f (currentIndex s)"
  "imageIds (setCurrentIndex f s) = imageIds s"
  by (simp_all add: setCurrentIndex_def)

lemma goNext_range: "2 \<le> n \<Longrightarrow> 0 \<le> i \<Longrightarrow> i < n \<Longrightarrow> 0 \<le> goNext n i \<and> goNext n i < n"
  by (simp add: goNext_def)

lemma goPrev_range: "2 \<le> n \<Longrightarrow> 0 \<le> i \<Longrightarrow> i < n \<Longrightarrow> 0 \<le> goPrev n i \<and> goPrev n i < n"
  by (simp add: goPrev_def)

lemma next_slice_index_inv:
  assumes "index_inv ids s"
  shows "index_inv ids (next_slice s)"
proof (cases "totalSlices s \<le> 1")
  case True
  then show ?thesis using assms by (simp add: next_slice_def)
next
  case False
  then have n: "2 \<le> totalSlices s" by simp
  have i: "0 \<le> currentIndex s" "currentIndex s < totalSlices s"
    using assms n by (simp_all add: index_inv_def totalSlices_def)
  have "0 \<le> goNext (totalSlices s) (currentIndex s) \<and>
        goNext (totalSlices s) (currentIndex s) < totalSlices s"
    using n i by (rule goNext_range)
  then show ?thesis
    using assms False by (simp add: index_inv_def next_slice_index totalSlices_def)
qed

lemma previous_slice_index_inv:
  assumes "index_inv ids s"
  shows "index_inv ids (previous_slice s)"
proof (cases "totalSlices s \<le> 1")
  case True
  then show ?thesis using assms by (simp add: previous_slice_def)
next
  case False
  then have n: "2 \<le> totalSlices s" by simp
  have i: "0 \<le> currentIndex s" "currentIndex s < totalSlices s"
    using assms n by (simp_all add: index_inv_def totalSlices_def)
  have "0 \<le> goPrev (totalSlices s) (currentIndex s) \<and>
        goPrev (totalSlices s) (currentIndex s) < totalSlices s"
    using n i by (rule goPrev_range)
  then show ?thesis
    using assms False by (simp add: index_inv_def previous_slice_index totalSlices_def)
qed

lemma handleKey_cases:
  "handleKey key in_editable s = s \<or> handleKey key in_editable s = previous_slice s
   \<or> handleKey key in_editable s = next_slice s"
  by (simp add: handleKey_def previous_slice_def next_slice_def)

lemma index_inv_run_load_effect:
  "index_inv ids (run_load_effect s) = index_inv ids s"
  by (simp add: index_inv_def)

lemma step_index_inv:
  assumes "index_inv ids s" and "\<not> replaces_sequence e"
  shows "index_inv ids (step e s)"
proof (cases e)
  case ClickPrev
  then show ?thesis using assms by (simp add: previous_slice_index_inv)
next
  case ClickNext
  then show ?thesis using assms by (simp add: next_slice_index_inv)
next
  case (KeyDown key ed)
  then show ?thesis
    using assms handleKey_cases [of key ed s] previous_slice_index_inv [of ids s]
      next_slice_index_inv [of ids s]
    by auto
next
  case (Enable out)
  have "index_inv ids (s\<lparr>enabled := True\<rparr>)" "index_inv ids (s\<lparr>errorMsg := m\<rparr>)" for m
    using assms by (simp_all add: index_inv_def)
  then show ?thesis using Enable assms
    by (cases out) (simp_all add: enableElement_def index_inv_run_load_effect)
next
  case Disable
  have "index_inv ids (s\<lparr>enabled := False\<rparr>)"
    using assms by (simp add: index_inv_def)
  then show ?thesis using Disable assms
    by (simp add: disableElement_def index_inv_run_load_effect)
next
  case (NewImageIds x)
  then show ?thesis using assms by simp
next
  case (Resolve k out)
  then show ?thesis using assms by (simp add: index_inv_def)
qed

lemma run_index_inv: "list_all (\<lambda>e. \<not> replaces_sequence e) es \<Longrightarrow> index_inv ids (run es ids)"
proof (induction es rule: rev_induct)
  case Nil
  show ?case by (simp add: run_def index_inv_def mount_def)
next
  case (snoc e es)
  then show ?case by (simp add: run_snoc step_index_inv)
qed

text \<open>
  Claim C8, as the code has it.  A mounted viewer starts at index 0.  As long as the parent
  does not pass another \<^verbatim>\<open>imageIds\<close> array, the index is a valid index of the sequence
  whenever the sequence is non-empty, and it is the number 0 (not \<^verbatim>\<open>undefined\<close>) when
  the sequence is empty.  Passing another array leaves \<^verbatim>\<open>currentIndex\<close> as it is: the
  component has no reset.
\<close>

theorem index_valid_while_sequence_kept:
  assumes "list_all (\<lambda>e. \<not> replaces_sequence e) es"
  shows "currentIndex (mount ids) = 0
       \<and> imageIds (run es ids) = ids
       \<and> (ids \<noteq> [] \<longrightarrow> valid_index (run es ids))
       \<and> (ids = [] \<longrightarrow> currentIndex (run es ids) = 0)
       \<and> currentIndex (step (NewImageIds ids') s) = currentIndex s"
proof -
  have "index_inv ids (run es ids)" using assms by (rule run_index_inv)
  then show ?thesis
    by (cases ids) (auto simp: index_inv_def valid_index_def totalSlices_def mount_def newImageIds_def)
qed

theorem index_valid_while_sequence_kept_witness:
  "list_all (\<lambda>e. \<not> replaces_sequence e) [Enable EnableOk, ClickNext, ClickNext, ClickNext, ClickPrev]
   \<and> valid_index (run [Enable EnableOk, ClickNext, ClickNext, ClickNext, ClickPrev]
        [Some ''a'', Some ''b'', Some ''c''])
   \<and> currentIndex (step (NewImageIds [Some ''x''])
        (run [Enable EnableOk, ClickNext, ClickNext, ClickNext, ClickPrev]
          [Some ''a'', Some ''b'', Some ''c'']))
      = currentIndex (run [Enable EnableOk, ClickNext, ClickNext, ClickNext, ClickPrev]
          [Some ''a'', Some ''b'', Some ''c''])"
proof -
  have h: "list_all (\<lambda>e. \<not> replaces_sequence e) [Enable EnableOk, ClickNext, ClickNext, ClickNext, ClickPrev]"
    by simp
  show ?thesis
    using index_valid_while_sequence_kept [OF h, of "[Some ''a'', Some ''b'', Some ''c'']"] h
    by simp
qed

text \<open>
  The claim as the specification words it fails: after two steps forward in a sequence of
  three, a new sequence of one slice leaves the index at 2, which is not an index of the
  new sequence, although that sequence is non-empty.
\<close>

theorem index_not_reset_by_new_sequence:
  "imageIds (run [Enable EnableOk, ClickNext, ClickNext, NewImageIds [Some ''x'']]
      [Some ''a'', Some ''b'', Some ''c'']) = [Some ''x'']
   \<and> currentIndex (run [Enable EnableOk, ClickNext, ClickNext, NewImageIds [Some ''x'']]
      [Some ''a'', Some ''b'', Some ''c'']) = 2
   \<and> \<not> valid_index (run [Enable EnableOk, ClickNext, ClickNext, NewImageIds [Some ''x'']]
      [Some ''a'', Some ''b'', Some ''c''])"
  by (simp add: run_def mount_def enableElement_def next_slice_def setCurrentIndex_def
      newImageIds_def totalSlices_def goNext_def valid_index_def)


section \<open>Properties of the report structurer\<close>

subsection \<open>The tinting pass\<close>

lemma textContent_walk: "textContent (walk n) = textContent n"
proof (induction n)
  case (Text s)
  show ?case by simp
next
  case (Element t cs kids)
  then have e: "map (textContent \<circ> walk) kids = map textContent kids"
    by (intro map_cong) simp_all
  show ?case by (simp add: e)
qed


lemma is_h2_walk: "is_h2 (walk n) = is_h2 n"
  by (cases n) simp_all

lemma wrapperClass_walk: "wrapperClass (walk n) = wrapperClass n"
  by (simp add: wrapperClass_def is_h2_walk textContent_walk)

lemma classList_add_idem: "classList_add c (classList_add c cs) = classList_add c cs"
  by (simp add: classList_add_def)

lemma tint_idem: "tint t (tint t cs text) text = tint t cs text"
  by (auto simp: tint_def classList_add_idem split: option.splits)

lemma walk_idem: "walk (walk n) = walk n"
proof (induction n)
  case (Text s)
  show ?case by simp
next
  case (Element t cs kids)
  have k: "map (walk \<circ> walk) kids = map walk kids"
    using Element by (intro map_cong) simp_all
  have "textContent (Element t (tint t cs (trim (concat (map textContent kids)))) (map walk kids))
      = textContent (Element t cs kids)"
    using textContent_walk [of "Element t cs kids"] by simp
  then show ?case using k by (simp add: tint_idem)
qed

lemma has_section_walk: "has_section (walk n) = has_section n"
proof (induction n)
  case (Text s)
  show ?case by simp
next
  case (Element t cs kids)
  have w: "wrapperClass (walk (Element t cs kids)) = wrapperClass (Element t cs kids)"
    by (rule wrapperClass_walk)
  have "list_ex has_section (map walk kids) = list_ex has_section kids"
    using Element by (induction kids) simp_all
  then show ?case using w by simp
qed


subsection \<open>The wrapping pass\<close>

lemma wrap_all_map: "wrap_all ns = map wrap_node ns"
  by (induction ns) simp_all

lemma wrap_without_sections:
  "(\<not> has_section n \<longrightarrow> wrap_node n = n)"
  "(\<not> list_ex has_section ns \<longrightarrow> wrap_all ns = ns)"
  "(\<not> list_ex has_section ms \<longrightarrow> wrap_h2s ms = ms)"
proof (induction n and ns and ms rule: wrap_node_wrap_all_wrap_h2s.induct)
  case (6 n ns)
  show ?case
  proof
    assume a: "\<not> list_ex has_section (n # ns)"
    then have "\<not> has_section n" by simp
    then have w: "wrapperClass n = None" by (cases n) (auto simp: wrapperClass_def)
    show "wrap_h2s (n # ns) = n # ns"
      using a w 6(1,2) by simp
  qed
qed simp_all

lemma list_ex_has_section_walk: "list_ex has_section (map walk ns) = list_ex has_section ns"
  by (induction ns) (simp_all add: has_section_walk)

text \<open>
  Claim C3, as the code has it.  The tinting pass is idempotent: \<^verbatim>\<open>classList.add\<close> never
  repeats a class, and the pass reads only text, which it does not change.  The wrapping
  pass has no test for a heading that sits in a container already, so it is idempotent
  only where it does nothing: for a document without a level-2 heading recognised as
  FINDINGS, IMPRESSION or CONCLUSION, annotating twice is annotating once.
\<close>

theorem annotate_idempotent_without_sections:
  "walk (walk n) = walk n
   \<and> (\<not> list_ex has_section body \<longrightarrow>
        enhanceReportHtml (enhanceReportHtml body) = enhanceReportHtml body)"
proof (intro conjI impI)
  show "walk (walk n) = walk n" by (rule walk_idem)
next
  assume a: "\<not> list_ex has_section body"
  then have 1: "wrap_h2s body = body" using wrap_without_sections(3) by blast
  have "\<not> list_ex has_section (map walk body)"
    using a by (simp add: list_ex_has_section_walk)
  then have 2: "wrap_h2s (map walk body) = map walk body"
    using wrap_without_sections(3) by blast
  show "enhanceReportHtml (enhanceReportHtml body) = enhanceReportHtml body"
    by (simp add: enhanceReportHtml_def 1 2 walk_idem)
qed

theorem annotate_idempotent_without_sections_witness:
  "\<not> list_ex has_section [Element ''h2'' [] [Text ''History''],
        Element ''p'' [] [Text ''L5-S1: disc space is normal and unremarkable'']]
   \<and> enhanceReportHtml (enhanceReportHtml [Element ''h2'' [] [Text ''History''],
        Element ''p'' [] [Text ''L5-S1: disc space is normal and unremarkable'']])
     = enhanceReportHtml [Element ''h2'' [] [Text ''History''],
        Element ''p'' [] [Text ''L5-S1: disc space is normal and unremarkable'']]"
proof -
  have h: "\<not> list_ex has_section [Element ''h2'' [] [Text ''History''],
        Element ''p'' [] [Text ''L5-S1: disc space is normal and unremarkable'']]"
    by code_simp
  show ?thesis
    using annotate_idempotent_without_sections [of "Text []" "[Element ''h2'' [] [Text ''History''],
        Element ''p'' [] [Text ''L5-S1: disc space is normal and unremarkable'']]"] h
    by blast
qed

text \<open>
  The claim as the specification words it fails: the second invocation wraps a recognised
  heading, which already sits in its container, in a second container of the same class.
\<close>

theorem annotate_wraps_again:
  "enhanceReportHtml [Element ''h2'' [] [Text ''FINDINGS'']]
     = [Element ''div'' [''report-section-findings''] [Element ''h2'' [] [Text ''FINDINGS'']]]
   \<and> enhanceReportHtml (enhanceReportHtml [Element ''h2'' [] [Text ''FINDINGS'']])
     = [Element ''div'' [''report-section-findings'']
         [Element ''div'' [''report-section-findings''] [Element ''h2'' [] [Text ''FINDINGS'']]]]
   \<and> enhanceReportHtml (enhanceReportHtml [Element ''h2'' [] [Text ''FINDINGS'']])
     \<noteq> enhanceReportHtml [Element ''h2'' [] [Text ''FINDINGS'']]"
  by code_simp





subsection \<open>Text under the wrapping pass\<close>



















end
